theory Spec2Isabelle
  imports Complex_Main "HOL-Library.Sublist"
begin

section \<open>Numbers printed in decimal\<close>

text \<open>
  The source turns numbers into text in template literals and with \<open>String(n)\<close>. All numbers
  printed by the modelled code are integers, far below the magnitude where the language
  switches to exponent notation, so the text is the decimal numeral with a leading minus sign
  for a negative number.
\<close>

definition digit :: "nat \<Rightarrow> char" where
  "digit d = char_of (48 + d)"

fun string_of_nat :: "nat \<Rightarrow> string" where
  "string_of_nat n =
     (if n < 10 then [digit n] else string_of_nat (n div 10) @ [digit (n mod 10)])"

declare string_of_nat.simps [simp del]

definition String :: "int \<Rightarrow> string" where
  "String i = (if i < 0 then CHR ''-'' # string_of_nat (nat (- i)) else string_of_nat (nat i))"

section \<open>Vote bar\<close>

text \<open>
  \<open>VoteBar\<close> keeps two pieces of state: the count \<open>votes\<close> and the direction \<open>dir\<close>, which is
  \<open>"up"\<close>, \<open>"down"\<close> or \<open>null\<close> (here \<open>None\<close>).
\<close>

datatype direction = Up | Down

record VoteBar =
  votes :: int
  dir :: "direction option"

text \<open>
  The handler \<open>up\<close> is a closure made by a render: the updater of \<open>votes\<close> reads the \<open>dir\<close> of that
  render (first argument), the updater of \<open>dir\<close> reads the state it is applied to.
\<close>

definition up :: "direction option \<Rightarrow> VoteBar \<Rightarrow> VoteBar" where
  "up rendered st =
     \<lparr> votes = votes st + (if rendered = Some Up then - 1 else if rendered = Some Down then 2 else 1),
       dir = (if dir st = Some Up then None else Some Up) \<rparr>"

definition down :: "direction option \<Rightarrow> VoteBar \<Rightarrow> VoteBar" where
  "down rendered st =
     \<lparr> votes = votes st + (if rendered = Some Down then 1 else if rendered = Some Up then - 2 else - 1),
       dir = (if dir st = Some Down then None else Some Down) \<rparr>"

text \<open>
  Every click is a separate event and the component is rendered again before the next one,
  so a click runs the handler made from the state it is applied to.
\<close>

definition click_up :: "VoteBar \<Rightarrow> VoteBar" where
  "click_up st = up (dir st) st"

definition click_down :: "VoteBar \<Rightarrow> VoteBar" where
  "click_down st = down (dir st) st"

text \<open>The state \<open>useState(initialVotes)\<close>, \<open>useState(null)\<close> of a fresh vote bar.\<close>

definition VoteBar_init :: "int \<Rightarrow> VoteBar" where
  "VoteBar_init initialVotes = \<lparr> votes = initialVotes, dir = None \<rparr>"

section \<open>Data shapes and the article mapper\<close>

record NewsItem =
  item_id :: string
  item_title :: string
  item_url :: string
  favicon :: string
  thumbnail :: "string option"
  comments :: int
  item_votes :: int
  age :: string
  item_thread :: string

text \<open>
  The raw record of the news API. Every field is optional (\<open>None\<close> is \<open>undefined\<close>); \<open>image\<close> is
  suffixed because HOL has a constant of that name.
\<close>

record Source =
  source_name :: "string option"
  source_url :: "string option"

record GNewsArticle =
  title :: "string option"
  url :: "string option"
  image_field :: "string option"
  source :: "Source option"
  publishedAt :: "string option"

text \<open>
  What the code can throw, one constructor for each place that throws: the two \<open>throw new Error\<close>
  of \<open>fetchGNews\<close>, the \<open>new URL(url)\<close> of \<open>mapGNews\<close> (a TypeError, with the platform's message),
  a rejected \<open>fetch\<close> and a rejected \<open>res.json()\<close>. \<open>message\<close> is the \<open>.message\<close> the feed shows.
\<close>

datatype error =
    MissingToken
  | Network int
  | InvalidURL string
  | FetchRejected string
  | JsonRejected string

fun message :: "error \<Rightarrow> string" where
  "message MissingToken = ''Missing GNEWS_TOKEN env var''"
| "message (Network st) = ''Network '' @ String st"
| "message (InvalidURL m) = m"
| "message (FetchRejected m) = m"
| "message (JsonRejected m) = m"

text \<open>
  The platform functions the code calls, taken as parameters: \<open>process.env\<close>;
  \<open>new URL(u).hostname\<close>, which throws a TypeError (\<open>Inl\<close>, with its message) on a string that is
  not a URL; and \<open>new Date(s).getTime()\<close>, milliseconds since the epoch, which is \<open>NaN\<close> (\<open>None\<close>)
  on a string that is not a date.
\<close>

record platform =
  env :: "string \<rightharpoonup> string"
  hostname :: "string \<Rightarrow> string + string"
  getTime :: "string \<Rightarrow> int option"

text \<open>
  \<open>x || y\<close> where \<open>x\<close> is a string or \<open>undefined\<close>: \<open>x\<close> when it is a non-empty string, else \<open>y\<close>.
\<close>

definition or_else :: "string option \<Rightarrow> string \<Rightarrow> string" where
  "or_else x y = (case x of None \<Rightarrow> y | Some s \<Rightarrow> if s \<noteq> [] then s else y)"

text \<open>
  \<open>Math.round(d / 36e5)\<close> for a whole number of milliseconds \<open>d\<close>: the nearest whole number of
  hours, a half rounded up. The quotient of the two whole numbers either is a threshold
  \<open>k + 1/2\<close>, which is a double, or lies at least \<open>1/3600000\<close> away from every threshold; that is
  more than the rounding error of the division for every difference of two dates the platform
  represents, so the rounded quotient lies on the same side and the result is the exact one.
\<close>

definition round_hours :: "int \<Rightarrow> int" where
  "round_hours d = (d + 1800000) div 3600000"

text \<open>
  \<open>mapGNews\<close>. \<open>today\<close> is the clock read by the default \<open>new Date().toISOString()\<close> of
  \<open>publishedAt\<close> (that text parses back to the same millisecond), \<open>now\<close> the clock read by
  \<open>Date.now()\<close>. \<open>ageHours\<close> is \<open>None\<close> when it is \<open>NaN\<close>, which \<open>Math.round\<close> and \<open>Math.max\<close> pass on.
\<close>

definition mapGNews ::
  "('x platform_scheme) \<Rightarrow> int \<Rightarrow> int \<Rightarrow> GNewsArticle \<Rightarrow> int \<Rightarrow> string \<Rightarrow> error + NewsItem" where
  "mapGNews p today now a idx topic =
     (let title' = (case title a of None \<Rightarrow> ''Untitled'' | Some t \<Rightarrow> t);
          url' = (case url a of None \<Rightarrow> ''#'' | Some u \<Rightarrow> u);
          image' = image_field a;
          source' = (case source a of None \<Rightarrow> \<lparr> source_name = None, source_url = None \<rparr> | Some s \<Rightarrow> s);
          published = (case publishedAt a of None \<Rightarrow> Some today | Some s \<Rightarrow> getTime p s)
      in case (case source_url source' of
                 Some s \<Rightarrow> if s \<noteq> [] then Inr s
                           else if url' \<noteq> [] \<and> url' \<noteq> ''#'' then hostname p url' else Inr []
               | None \<Rightarrow> if url' \<noteq> [] \<and> url' \<noteq> ''#'' then hostname p url' else Inr [])
         of Inl m \<Rightarrow> Inl (InvalidURL m)
          | Inr domain \<Rightarrow>
              (let favicon' = (if domain \<noteq> [] then ''https://www.google.com/s2/favicons?domain='' @ domain
                               else []);
                   ageHours = (case published of None \<Rightarrow> None
                               | Some t \<Rightarrow> Some (max 1 (round_hours (now - t))))
               in Inr \<lparr> item_id = topic @ ''-'' @ String idx,
                        item_title = title',
                        item_url = url',
                        favicon = favicon',
                        thumbnail = image',
                        comments = 0,
                        item_votes = 0,
                        age = (case ageHours of None \<Rightarrow> ''NaN'' | Some h \<Rightarrow> String h) @ ''h ago'',
                        item_thread = topic \<rparr>))"

section \<open>The feed fetcher\<close>

definition PAGE_SIZE :: int where
  "PAGE_SIZE = 10"

text \<open>\<open>GNEWS_TOKEN\<close>: \<open>a || b || c\<close> is the first of the three that is a non-empty string.\<close>

definition GNEWS_TOKEN :: "(string \<rightharpoonup> string) \<Rightarrow> string" where
  "GNEWS_TOKEN e =
     or_else (e ''NEXT_PUBLIC_GNEWS_TOKEN'')
       (or_else (e ''GNEWS_TOKEN'') ''398eff08263b1e6180096acb4ab68a01'')"

text \<open>
  The response of \<open>fetch\<close>: it rejects (a transport failure, with its message) or resolves to a
  response with \<open>ok\<close>, \<open>status\<close> and a body. \<open>res.json()\<close> rejects on a body that is not JSON;
  otherwise the body is an object whose \<open>articles\<close> is missing (or \<open>null\<close>), or an array of raw
  records, the shape the code declares (\<open>GNewsArticle[]\<close>).
\<close>

datatype json_body = JsonRejects string | NoArticles | Articles "GNewsArticle list"

record Response =
  ok :: bool
  status :: int
  json :: json_body

datatype fetch_outcome = Rejects string | Resolves Response

text \<open>The entries of the \<open>URLSearchParams\<close> of a request to \<open>https://gnews.io/api/v4/top-headlines\<close>.\<close>

type_synonym params = "(string \<times> string) list"

text \<open>
  \<open>arts.map((a, idx) => ...)\<close> with a callback that can throw: the first throw ends the map.
\<close>

fun map_indexed :: "('a \<Rightarrow> nat \<Rightarrow> error + 'b) \<Rightarrow> nat \<Rightarrow> 'a list \<Rightarrow> error + 'b list" where
  "map_indexed f i [] = Inr []"
| "map_indexed f i (a # as) =
     (case f a i of
        Inl e \<Rightarrow> Inl e
      | Inr b \<Rightarrow> (case map_indexed f (Suc i) as of Inl e \<Rightarrow> Inl e | Inr bs \<Rightarrow> Inr (b # bs)))"

text \<open>
  \<open>fetchGNews\<close>. \<open>tok\<close> is the module constant \<open>GNEWS_TOKEN\<close> the function reads, \<open>net\<close> answers the
  request, \<open>clock i\<close> are the two clock readings (\<open>new Date()\<close>, \<open>Date.now()\<close>) while the article
  at position \<open>i\<close> is mapped. The result is the list of requests issued and what the promise
  settles to.
\<close>

definition fetchGNews ::
  "string \<Rightarrow> ('x platform_scheme) \<Rightarrow> (nat \<Rightarrow> int \<times> int) \<Rightarrow> (params \<Rightarrow> fetch_outcome) \<Rightarrow>
     int \<Rightarrow> string option \<Rightarrow> params list \<times> (error + NewsItem list)" where
  "fetchGNews tok p clock net pg thr =
     (if tok = [] then ([], Inl MissingToken)
      else
        let params0 = [(''token'', tok), (''lang'', ''en''), (''max'', String PAGE_SIZE),
                       (''page'', String pg)];
            params1 = (case thr of None \<Rightarrow> params0
                       | Some t \<Rightarrow> if t \<noteq> [] then params0 @ [(''topic'', t)] else params0)
        in ([params1],
            case net params1 of
              Rejects m \<Rightarrow> Inl (FetchRejected m)
            | Resolves res \<Rightarrow>
                if \<not> ok res then Inl (Network (status res))
                else (case json res of
                        JsonRejects m \<Rightarrow> Inl (JsonRejected m)
                      | body \<Rightarrow>
                          (let arts = (case body of Articles as \<Rightarrow> as | _ \<Rightarrow> [])
                           in map_indexed
                                (\<lambda>a idx. mapGNews p (fst (clock idx)) (snd (clock idx)) a
                                   ((pg - 1) * PAGE_SIZE + int idx)
                                   (or_else thr ''all''))
                                0 arts))))"

section \<open>The news feed\<close>

text \<open>The five \<open>useState\<close> cells of \<open>NewsFeed\<close>.\<close>

record feed =
  items :: "NewsItem list"
  page :: int
  loading :: bool
  error :: "string option"
  hasMore :: bool

text \<open>
  One run of the loading effect: the \<open>page\<close> and \<open>thread\<close> its closure holds, its own
  \<open>cancelled\<close> variable, and whether the promise it awaits has settled.
\<close>

record load =
  load_page :: int
  load_thread :: "string option"
  cancelled :: bool
  settled :: bool

text \<open>
  The mounted component: the \<open>thread\<close> prop, the state, and the runs of the loading effect,
  the newest first.
\<close>

record NewsFeed =
  thread :: "string option"
  state :: feed
  loads :: "load list"

text \<open>The body of the first effect, which depends on \<open>thread\<close>.\<close>

definition reset :: "feed \<Rightarrow> feed" where
  "reset st = st\<lparr> items := [], page := 1, hasMore := True \<rparr>"

text \<open>\<open>load\<close> up to its \<open>await\<close>.\<close>

definition load_begin :: "feed \<Rightarrow> feed" where
  "load_begin st = st\<lparr> loading := True, error := None \<rparr>"

text \<open>
  \<open>load\<close> after its \<open>await\<close>, when \<open>fetchGNews\<close> has settled to \<open>r\<close>: the rest of the \<open>try\<close> or
  the \<open>catch\<close>, then the \<open>finally\<close>. \<open>c\<close> is the value of \<open>cancelled\<close> at that moment.
\<close>

definition load_resume :: "bool \<Rightarrow> error + NewsItem list \<Rightarrow> feed \<Rightarrow> feed" where
  "load_resume c r st =
     (let st' = (case r of
                   Inr data \<Rightarrow>
                     if c then st
                     else st\<lparr> items := items st @ data,
                             hasMore := (int (length data) = PAGE_SIZE) \<rparr>
                 | Inl e \<Rightarrow> if \<not> c then st\<lparr> error := Some (message e) \<rparr> else st)
      in if \<not> c then st'\<lparr> loading := False \<rparr> else st')"

text \<open>The cleanup of the newest run of the loading effect: \<open>cancelled = true\<close>.\<close>

definition cleanup :: "load list \<Rightarrow> load list" where
  "cleanup ls = (case ls of [] \<Rightarrow> [] | l # rest \<Rightarrow> l\<lparr> cancelled := True \<rparr> # rest)"

text \<open>
  The loading effect runs again after a render with page \<open>pg\<close>: the cleanup of the run before,
  then a new run, which calls \<open>load\<close>.
\<close>

definition run_load :: "int \<Rightarrow> NewsFeed \<Rightarrow> NewsFeed" where
  "run_load pg s =
     s\<lparr> state := load_begin (state s),
        loads := \<lparr> load_page = pg, load_thread = thread s, cancelled = False, settled = False \<rparr>
                 # cleanup (loads s) \<rparr>"

text \<open>
  What can happen to the mounted feed: the user picks a thread, the user clicks "Load more",
  or the request of the run at position \<open>i\<close> is answered (with the clock readings of the
  mapping that follows).
\<close>

datatype event =
    SetThread "string option"
  | LoadMore
  | Settle nat fetch_outcome "nat \<Rightarrow> int \<times> int"

text \<open>
  One event, handled to its end (render, cleanups, effects) before the next: a click is
  rendered and its effects are run before another task, such as the answer to a request, gets
  its turn. A new thread renders the component with the page it had: both effects run, the
  first resets the state, the second loads that page; if the reset changed the page, the
  render that follows runs the second effect again, for page 1. "Load more" is on the screen
  only while \<open>!loading && hasMore\<close>. A request is answered once; what its promise settles to is
  \<open>fetchGNews\<close> of the answer.
\<close>

fun step :: "('x platform_scheme) \<Rightarrow> event \<Rightarrow> NewsFeed \<Rightarrow> NewsFeed" where
  "step p (SetThread t) s =
     (if t = thread s then s
      else
        let pg = page (state s);
            s1 = s\<lparr> thread := t \<rparr>;
            s2 = run_load pg (s1\<lparr> state := reset (state s1) \<rparr>)
        in if pg = 1 then s2 else run_load 1 s2)"
| "step p LoadMore s =
     (if \<not> loading (state s) \<and> hasMore (state s)
      then run_load (page (state s) + 1) (s\<lparr> state := (state s)\<lparr> page := page (state s) + 1 \<rparr> \<rparr>)
      else s)"
| "step p (Settle i out clock) s =
     (if i < length (loads s) \<and> \<not> settled (loads s ! i)
      then
        let l = loads s ! i;
            r = snd (fetchGNews (GNEWS_TOKEN (env p)) p clock (\<lambda>_. out) (load_page l) (load_thread l))
        in s\<lparr> state := load_resume (cancelled l) r (state s),
              loads := (loads s)[i := l\<lparr> settled := True \<rparr>] \<rparr>
      else s)"

text \<open>
  The component when it is mounted by \<open>App\<close>, whose thread starts as \<open>null\<close>: the initial state,
  then both effects.
\<close>

definition mount :: NewsFeed where
  "mount =
     run_load 1
       \<lparr> thread = None,
         state = reset \<lparr> items = [], page = 1, loading = False, error = None, hasMore = True \<rparr>,
         loads = [] \<rparr>"

primrec run :: "('x platform_scheme) \<Rightarrow> event list \<Rightarrow> NewsFeed \<Rightarrow> NewsFeed" where
  "run p [] s = s"
| "run p (e # es) s = run p es (step p e s)"

text \<open>The articles in an answer, and the number of articles an event brings in.\<close>

fun articles_of :: "fetch_outcome \<Rightarrow> GNewsArticle list" where
  "articles_of (Resolves res) = (case json res of Articles as \<Rightarrow> as | _ \<Rightarrow> [])"
| "articles_of (Rejects m) = []"

fun brought :: "event \<Rightarrow> nat" where
  "brought (Settle i out clock) = length (articles_of out)"
| "brought _ = 0"

section \<open>Invariants of the feed\<close>

text \<open>
  The newest run of the loading effect holds the page and thread of the last render, and
  every run before it has been cancelled.
\<close>

definition newest_current :: "NewsFeed \<Rightarrow> bool" where
  "newest_current s =
     (case loads s of
        [] \<Rightarrow> False
      | l # rest \<Rightarrow> load_page l = page (state s) \<and> load_thread l = thread s
                    \<and> list_all cancelled rest)"

text \<open>
  The indices of the accumulated articles lie below \<open>bound\<close>: below the first index of the
  current page while its load can still append, below the first index of the next page after.
\<close>

definition bound :: "NewsFeed \<Rightarrow> int" where
  "bound s =
     (case loads s of
        [] \<Rightarrow> page (state s) * PAGE_SIZE
      | l # rest \<Rightarrow> if \<not> cancelled l \<and> \<not> settled l then (page (state s) - 1) * PAGE_SIZE
                    else page (state s) * PAGE_SIZE)"

definition ids_ordered :: "NewsFeed \<Rightarrow> bool" where
  "ids_ordered s =
     (\<exists>ks. map item_id (items (state s)) = map (\<lambda>k. or_else (thread s) ''all'' @ ''-'' @ String k) ks
           \<and> sorted_wrt (<) ks \<and> (\<forall>k \<in> set ks. k < bound s))"

section \<open>Example inputs\<close>

text \<open>
  A platform whose URL parser accepts one address and whose date parser accepts one date,
  a raw record with every field absent, the item it is mapped to under a given id, an answer
  with a status and a body, and a clock that stands still.
\<close>

definition example_platform :: platform where
  "example_platform =
     \<lparr> env = Map.empty,
       hostname = (\<lambda>u. if u = ''https://example.com/a'' then Inr ''example.com''
                        else Inl ''Invalid URL''),
       getTime = (\<lambda>s. if s = ''1970-01-01T00:00:00.000Z'' then Some 0 else None) \<rparr>"

definition blank :: GNewsArticle where
  "blank = \<lparr> title = None, url = None, image_field = None, source = None, publishedAt = None \<rparr>"

definition untitled :: "string \<Rightarrow> NewsItem" where
  "untitled ident =
     \<lparr> item_id = ident, item_title = ''Untitled'', item_url = ''#'', favicon = [],
       thumbnail = None, comments = 0, item_votes = 0, age = ''1h ago'', item_thread = ''all'' \<rparr>"

definition response :: "int \<Rightarrow> json_body \<Rightarrow> fetch_outcome" where
  "response st body = Resolves \<lparr> ok = (200 \<le> st \<and> st \<le> 299), status = st, json = body \<rparr>"

definition clock0 :: "nat \<Rightarrow> int \<times> int" where
  "clock0 i = (0, 0)"

text \<open>
  A network that gives every request the same answer, an environment that sets both
  variables, and one whose first variable is set to the empty string.
\<close>

definition always :: "fetch_outcome \<Rightarrow> params \<Rightarrow> fetch_outcome" where
  "always out ps = out"

definition env_both :: "string \<rightharpoonup> string" where
  "env_both = [''NEXT_PUBLIC_GNEWS_TOKEN'' \<mapsto> ''k1'', ''GNEWS_TOKEN'' \<mapsto> ''k2'']"

definition env_second :: "string \<rightharpoonup> string" where
  "env_second = [''NEXT_PUBLIC_GNEWS_TOKEN'' \<mapsto> [], ''GNEWS_TOKEN'' \<mapsto> ''k2'']"

text \<open>
  A first page of ten articles, a click on "Load more", and a second page of two.
\<close>

definition two_pages :: "event list" where
  "two_pages =
     [Settle 0 (response 200 (Articles (replicate 10 blank))) clock0,
      LoadMore,
      Settle 0 (response 200 (Articles [blank, blank])) clock0]"

section \<open>Decimal printing is injective\<close>

lemma digit_inj: "a < 10 \<Longrightarrow> b < 10 \<Longrightarrow> digit a = digit b \<Longrightarrow> a = b"
proof -
  assume a: "a < 10" and b: "b < 10" and e: "digit a = digit b"
  from e have "(of_char (digit a) :: nat) = of_char (digit b)" by simp
  with a b show "a = b" by (simp add: digit_def)
qed

lemma digit_not_minus: "d < 10 \<Longrightarrow> digit d \<noteq> CHR ''-''"
proof
  assume d: "d < 10" and e: "digit d = CHR ''-''"
  from e have "(of_char (digit d) :: nat) = of_char (CHR ''-'')" by simp
  with d show False by (simp add: digit_def)
qed

lemma string_of_nat_nonempty: "string_of_nat n \<noteq> []"
  by (subst string_of_nat.simps) simp

lemma string_of_nat_last: "last (string_of_nat n) = digit (n mod 10)"
  by (subst string_of_nat.simps) simp

lemma string_of_nat_butlast:
  "butlast (string_of_nat n) = (if n < 10 then [] else string_of_nat (n div 10))"
  by (subst string_of_nat.simps) simp

lemma string_of_nat_inj: "string_of_nat n = string_of_nat m \<Longrightarrow> n = m"
proof (induction n arbitrary: m rule: less_induct)
  case (less n)
  from less.prems have l: "digit (n mod 10) = digit (m mod 10)"
    by (metis string_of_nat_last)
  then have md: "n mod 10 = m mod 10" by (auto intro: digit_inj)
  from less.prems have b: "butlast (string_of_nat n) = butlast (string_of_nat m)" by simp
  show ?case
  proof (cases "n < 10")
    case True
    with b have "m < 10"
      using string_of_nat_nonempty[of "m div 10"] by (auto simp: string_of_nat_butlast split: if_splits)
    with True md show ?thesis by simp
  next
    case False
    with b have m: "\<not> m < 10" and e: "string_of_nat (n div 10) = string_of_nat (m div 10)"
      using string_of_nat_nonempty[of "n div 10"] by (auto simp: string_of_nat_butlast split: if_splits)
    from False have "n div 10 < n" by simp
    from less.IH[OF this e] have "n div 10 = m div 10" .
    with md show ?thesis by (metis div_mult_mod_eq)
  qed
qed

lemma string_of_nat_hd: "hd (string_of_nat n) \<noteq> CHR ''-''"
proof (induction n rule: less_induct)
  case (less n)
  show ?case
  proof (cases "n < 10")
    case True
    then show ?thesis by (subst string_of_nat.simps) (simp add: digit_not_minus)
  next
    case False
    then have "n div 10 < n" by simp
    from less.IH[OF this] False show ?thesis
      by (subst string_of_nat.simps) (simp add: string_of_nat_nonempty)
  qed
qed

lemma String_inj: "String i = String j \<Longrightarrow> i = j"
proof -
  assume e: "String i = String j"
  have neq: "\<And>a b. CHR ''-'' # string_of_nat a \<noteq> string_of_nat b"
    using string_of_nat_hd string_of_nat_nonempty by (metis list.sel(1))
  show "i = j"
  proof (cases "i < 0")
    case True
    show ?thesis
    proof (cases "j < 0")
      case T2: True
      with True e have "nat (- i) = nat (- j)" by (auto simp: String_def dest: string_of_nat_inj)
      with True T2 show ?thesis by simp
    next
      case False
      with True e neq show ?thesis by (auto simp: String_def)
    qed
  next
    case False
    show ?thesis
    proof (cases "j < 0")
      case True
      with False e neq[of "nat (- j)" "nat i"] show ?thesis by (auto simp: String_def)
    next
      case F2: False
      with False e have "nat i = nat j" by (auto simp: String_def dest: string_of_nat_inj)
      with False F2 show ?thesis by simp
    qed
  qed
qed

section \<open>Facts about the mapper and the fetcher\<close>

lemma mapGNews_id:
  "mapGNews p today now a idx topic = Inr it \<Longrightarrow> item_id it = topic @ ''-'' @ String idx"
  by (auto simp: mapGNews_def Let_def split: sum.splits)

lemma round_hours_floor: "round_hours d = \<lfloor>real_of_int d / 3600000 + 1 / 2\<rfloor>"
proof -
  have "real_of_int d / 3600000 + 1 / 2 = real_of_int (d + 1800000) / real_of_int 3600000"
    by (simp add: field_simps)
  then show ?thesis
    unfolding round_hours_def by (simp only: floor_divide_of_int_eq)
qed

lemma round_hours_round: "round_hours d = round (real_of_int d / 3600000)"
  by (simp add: round_hours_floor round_def)

lemma mapGNews_age_floor:
  assumes "mapGNews p today now a idx topic = Inr it"
      and "(case publishedAt a of None \<Rightarrow> Some today | Some d \<Rightarrow> getTime p d) = Some t"
  shows "age it = String (max 1 (round_hours (now - t))) @ ''h ago''"
  using assms by (auto simp: mapGNews_def Let_def split: sum.splits)

lemma or_else_nonempty: "y \<noteq> [] \<Longrightarrow> or_else x y \<noteq> []"
  by (simp add: or_else_def split: option.splits)

lemma GNEWS_TOKEN_nonempty: "GNEWS_TOKEN e \<noteq> []"
  by (simp add: GNEWS_TOKEN_def or_else_nonempty)

lemma map_indexed_ids:
  assumes "map_indexed f i as = Inr bs"
      and "\<And>a j b. f a j = Inr b \<Longrightarrow> g b = h j"
  shows "map g bs = map h [i ..< i + length as]"
  using assms(1)
proof (induction as arbitrary: i bs)
  case Nil
  then show ?case by simp
next
  case (Cons a as)
  from Cons.prems obtain b bs' where b: "f a i = Inr b"
    and r: "map_indexed f (Suc i) as = Inr bs'" and bs: "bs = b # bs'"
    by (auto split: sum.splits)
  from Cons.IH[OF r] have "map g bs' = map h [Suc i ..< Suc i + length as]" .
  with assms(2)[OF b] bs show ?case by (simp add: upt_rec)
qed

lemma map_indexed_length: "map_indexed f i as = Inr bs \<Longrightarrow> length bs = length as"
  by (induction as arbitrary: i bs) (auto split: sum.splits)

lemma fetchGNews_Inr:
  assumes "snd (fetchGNews tok p clock (\<lambda>_. out) pg thr) = Inr data"
  shows "map_indexed
          (\<lambda>a idx. mapGNews p (fst (clock idx)) (snd (clock idx)) a
             ((pg - 1) * PAGE_SIZE + int idx) (or_else thr ''all'')) 0 (articles_of out) = Inr data"
  using assms
  by (auto simp: fetchGNews_def Let_def split: if_splits fetch_outcome.splits json_body.splits)

lemma fetchGNews_length:
  assumes "snd (fetchGNews tok p clock (\<lambda>_. out) pg thr) = Inr data"
  shows "length data = length (articles_of out)"
  using fetchGNews_Inr[OF assms] by (rule map_indexed_length)

lemma fetchGNews_ids:
  assumes "snd (fetchGNews tok p clock (\<lambda>_. out) pg thr) = Inr data"
  shows "map item_id data =
           map (\<lambda>j. or_else thr ''all'' @ ''-'' @ String ((pg - 1) * PAGE_SIZE + int j)) [0 ..< length data]"
  using map_indexed_ids[OF fetchGNews_Inr[OF assms], of item_id
      "\<lambda>j. or_else thr ''all'' @ ''-'' @ String ((pg - 1) * PAGE_SIZE + int j)"]
  by (simp add: mapGNews_id fetchGNews_length[OF assms])

lemma mapGNews_error: "mapGNews p today now a idx topic = Inl e \<Longrightarrow> \<exists>m. e = InvalidURL m"
  by (auto simp: mapGNews_def Let_def split: sum.splits)

lemma map_indexed_error: "map_indexed f i as = Inl e \<Longrightarrow> \<exists>a j. f a j = Inl e"
  by (induction as arbitrary: i) (auto split: sum.splits)

lemma String_PAGE_SIZE: "String PAGE_SIZE = ''10''"
  by code_simp

lemma fetchGNews_requests:
  "tok \<noteq> [] \<Longrightarrow>
   fst (fetchGNews tok p clock net pg thr) =
     [[(''token'', tok), (''lang'', ''en''), (''max'', ''10''), (''page'', String pg)]
      @ (case thr of None \<Rightarrow> [] | Some t \<Rightarrow> if t \<noteq> [] then [(''topic'', t)] else [])]"
  by (simp add: fetchGNews_def Let_def String_PAGE_SIZE split: option.splits)

lemma fetchGNews_not_ok:
  "tok \<noteq> [] \<Longrightarrow> \<not> ok res \<Longrightarrow>
     snd (fetchGNews tok p clock (\<lambda>_. Resolves res) pg thr) = Inl (Network (status res))"
  by (simp add: fetchGNews_def Let_def)

lemma fetchGNews_no_articles:
  "tok \<noteq> [] \<Longrightarrow> ok res \<Longrightarrow> json res = NoArticles \<Longrightarrow>
     snd (fetchGNews tok p clock (\<lambda>_. Resolves res) pg thr) = Inr []"
  by (simp add: fetchGNews_def Let_def)

section \<open>Facts about the feed\<close>

lemmas feed_defs =
  mount_def run_load_def cleanup_def load_begin_def reset_def load_resume_def Let_def

lemma load_resume_cancelled: "load_resume True r st = st"
  by (simp add: load_resume_def split: sum.splits)

lemma load_resume_page: "page (load_resume c r st) = page st"
  by (simp add: load_resume_def Let_def split: sum.splits)

lemma newest_current_older: "newest_current s \<Longrightarrow> list_all cancelled (tl (loads s))"
  by (simp add: newest_current_def split: list.splits)

lemma run_load_older:
  "list_all cancelled (tl (loads s)) \<Longrightarrow> list_all cancelled (tl (loads (run_load pg s)))"
  by (auto simp: run_load_def cleanup_def split: list.splits)

lemma run_load_newest:
  "list_all cancelled (tl (loads s)) \<Longrightarrow> pg = page (state s) \<Longrightarrow> newest_current (run_load pg s)"
  by (auto simp: newest_current_def run_load_def load_begin_def cleanup_def split: list.splits)

lemma newest_current_mount: "newest_current mount"
  unfolding mount_def by (rule run_load_newest) (simp_all add: reset_def)

lemma newest_current_step:
  assumes "newest_current s"
  shows "newest_current (step p e s)"
proof (cases e)
  case (SetThread t)
  let ?s1 = "s\<lparr> thread := t, state := reset (state s) \<rparr>"
  let ?s2 = "run_load (page (state s)) ?s1"
  have old: "list_all cancelled (tl (loads ?s1))"
    using newest_current_older[OF assms] by simp
  have o2: "list_all cancelled (tl (loads ?s2))"
    using old by (rule run_load_older)
  have p2: "page (state ?s2) = 1"
    by (simp add: run_load_def load_begin_def reset_def)
  show ?thesis
  proof (cases "t = thread s")
    case True
    with SetThread assms show ?thesis by simp
  next
    case False
    show ?thesis
    proof (cases "page (state s) = 1")
      case True
      have "newest_current ?s2"
        using old by (rule run_load_newest) (simp add: reset_def True)
      with SetThread False True show ?thesis by (simp add: Let_def)
    next
      case F: False
      have "newest_current (run_load 1 ?s2)"
        using o2 by (rule run_load_newest) (simp add: p2)
      with SetThread False F show ?thesis by (simp add: Let_def)
    qed
  qed
next
  case LoadMore
  let ?s1 = "s\<lparr> state := (state s)\<lparr> page := page (state s) + 1 \<rparr> \<rparr>"
  have "list_all cancelled (tl (loads ?s1))"
    using newest_current_older[OF assms] by simp
  then have "newest_current (run_load (page (state s) + 1) ?s1)"
    by (rule run_load_newest) simp
  with LoadMore assms show ?thesis by simp
next
  case (Settle i out clock)
  show ?thesis
  proof (cases "i < length (loads s) \<and> \<not> settled (loads s ! i)")
    case False
    with Settle assms show ?thesis by auto
  next
    case True
    from assms obtain l rest where ls: "loads s = l # rest"
      by (auto simp: newest_current_def split: list.splits)
    with assms True Settle show ?thesis
      by (cases i) (auto simp: newest_current_def Let_def load_resume_page list_all_length nth_list_update)
  qed
qed

lemma newest_current_run: "newest_current s \<Longrightarrow> newest_current (run p evs s)"
  by (induction evs arbitrary: s) (simp_all add: newest_current_step)

lemma cancelled_load_discarded:
  "i < length (loads s) \<Longrightarrow> cancelled (loads s ! i) \<Longrightarrow> state (step p (Settle i out clock) s) = state s"
  by (simp add: Let_def load_resume_cancelled)

lemma bound_le: "bound s \<le> page (state s) * PAGE_SIZE"
  by (simp add: bound_def PAGE_SIZE_def split: list.splits)

lemma ids_ordered_mono:
  assumes "ids_ordered s" and "items (state s') = items (state s)" and "thread s' = thread s"
      and "bound s \<le> bound s'"
  shows "ids_ordered s'"
proof -
  from assms(1) obtain ks where
    ks: "map item_id (items (state s)) = map (\<lambda>k. or_else (thread s) ''all'' @ ''-'' @ String k) ks"
        "sorted_wrt (<) ks" "\<forall>k \<in> set ks. k < bound s"
    by (auto simp: ids_ordered_def)
  from ks(3) assms(4) have "\<forall>k \<in> set ks. k < bound s'" by auto
  with ks(1,2) assms(2,3) show ?thesis
    unfolding ids_ordered_def by auto
qed

lemma ids_ordered_empty: "items (state s) = [] \<Longrightarrow> ids_ordered s"
  unfolding ids_ordered_def by (intro exI[of _ "[]"]) simp

lemma ids_ordered_mount: "ids_ordered mount"
  by (rule ids_ordered_empty) (simp add: feed_defs)

lemma ids_ordered_append:
  assumes "ids_ordered s" and "bound s = (pg - 1) * PAGE_SIZE"
      and "map item_id data =
             map (\<lambda>j. or_else (thread s) ''all'' @ ''-'' @ String ((pg - 1) * PAGE_SIZE + int j))
               [0 ..< length data]"
      and "length data \<le> 10"
      and "items (state s') = items (state s) @ data" and "thread s' = thread s"
      and "bound s' = pg * PAGE_SIZE"
  shows "ids_ordered s'"
proof -
  let ?h = "\<lambda>k. or_else (thread s) ''all'' @ ''-'' @ String k"
  let ?new = "map (\<lambda>j. (pg - 1) * PAGE_SIZE + int j) [0 ..< length data]"
  from assms(1) obtain ks where
    ks: "map item_id (items (state s)) = map ?h ks"
        "sorted_wrt (<) ks" "\<forall>k \<in> set ks. k < bound s"
    by (auto simp: ids_ordered_def)
  have m: "map item_id (items (state s')) = map ?h (ks @ ?new)"
    by (simp add: assms(5) ks(1) assms(3) comp_def)
  have n: "sorted_wrt (<) ?new"
    by (simp add: sorted_wrt_map)
  have c: "\<forall>x \<in> set ks. \<forall>y \<in> set ?new. x < y"
    using ks(3) assms(2) by auto
  have s: "sorted_wrt (<) (ks @ ?new)"
    using ks(2) n c by (simp add: sorted_wrt_append)
  have b: "\<forall>k \<in> set (ks @ ?new). k < bound s'"
    using ks(3) assms(2,4,7) by (auto simp: PAGE_SIZE_def)
  from m s b show ?thesis
    unfolding ids_ordered_def assms(6) by blast
qed


lemma ids_ordered_step:
  assumes n: "newest_current s" and o: "ids_ordered s" and b: "brought e \<le> 10"
  shows "ids_ordered (step p e s)"
proof (cases e)
  case (SetThread t)
  show ?thesis
  proof (cases "t = thread s")
    case True
    with SetThread o show ?thesis by simp
  next
    case False
    with SetThread show ?thesis
      by (intro ids_ordered_empty) (simp add: feed_defs)
  qed
next
  case LoadMore
  show ?thesis
  proof (cases "\<not> loading (state s) \<and> hasMore (state s)")
    case False
    with LoadMore o show ?thesis by auto
  next
    case True
    let ?s' = "run_load (page (state s) + 1) (s\<lparr> state := (state s)\<lparr> page := page (state s) + 1 \<rparr> \<rparr>)"
    have "bound ?s' = page (state s) * PAGE_SIZE"
      by (simp add: bound_def feed_defs)
    with bound_le[of s] have le: "bound s \<le> bound ?s'" by simp
    have "ids_ordered ?s'"
      by (rule ids_ordered_mono[OF o _ _ le]) (simp_all add: feed_defs)
    with LoadMore True show ?thesis by simp
  qed
next
  case (Settle i out clock)
  show ?thesis
  proof (cases "i < length (loads s) \<and> \<not> settled (loads s ! i)")
    case False
    with Settle o show ?thesis by auto
  next
    case True
    from n obtain l rest where ls: "loads s = l # rest"
      and l: "load_page l = page (state s)" "load_thread l = thread s"
      and rest: "list_all cancelled rest"
      by (auto simp: newest_current_def split: list.splits)
    let ?l = "loads s ! i"
    let ?r = "snd (fetchGNews (GNEWS_TOKEN (env p)) p clock (\<lambda>_. out) (load_page ?l) (load_thread ?l))"
    let ?s' = "s\<lparr> state := load_resume (cancelled ?l) ?r (state s),
                   loads := (loads s)[i := ?l\<lparr> settled := True \<rparr>] \<rparr>"
    have st: "step p e s = ?s'"
      using Settle True by (simp add: Let_def)
    have ids: "ids_ordered ?s'"
    proof (cases "cancelled ?l")
      case c: True
      have le: "bound s \<le> bound ?s'"
        using ls True c by (cases i) (auto simp: bound_def load_resume_cancelled PAGE_SIZE_def)
      show ?thesis
        by (rule ids_ordered_mono[OF o _ _ le]) (simp_all add: c load_resume_cancelled)
    next
      case c: False
      with ls rest True have i0: "i = 0"
        by (cases i) (auto simp: list_all_length)
      with ls have li: "?l = l" by simp
      from i0 ls c True li have bs: "bound s = (page (state s) - 1) * PAGE_SIZE"
        by (simp add: bound_def)
      from i0 ls have bs': "bound ?s' = page (state s) * PAGE_SIZE"
        by (simp add: bound_def load_resume_page)
      show ?thesis
      proof (cases ?r)
        case (Inl err)
        from bs bs' have le: "bound s \<le> bound ?s'" by (simp add: PAGE_SIZE_def)
        show ?thesis
          by (rule ids_ordered_mono[OF o _ _ le]) (simp_all add: Inl c load_resume_def)
      next
        case (Inr data)
        from Inr have len: "length data = length (articles_of out)"
          by (rule fetchGNews_length)
        with b Settle have le: "length data \<le> 10" by simp
        from fetchGNews_ids[OF Inr] li l
        have idm: "map item_id data =
             map (\<lambda>j. or_else (thread s) ''all'' @ ''-'' @ String ((page (state s) - 1) * PAGE_SIZE + int j))
               [0 ..< length data]"
          by simp
        show ?thesis
          by (rule ids_ordered_append[OF o bs idm le _ _ bs']) (simp_all add: Inr c load_resume_def)
      qed
    qed
    with st show ?thesis by simp
  qed
qed

lemma ids_ordered_run:
  assumes "newest_current s" and "ids_ordered s" and "\<forall>e \<in> set evs. brought e \<le> 10"
  shows "ids_ordered (run p evs s)"
  using assms
proof (induction evs arbitrary: s)
  case Nil
  then show ?case by simp
next
  case (Cons e evs)
  from Cons.prems have "newest_current (step p e s)" and "ids_ordered (step p e s)"
    by (simp_all add: newest_current_step ids_ordered_step)
  with Cons.IH[of "step p e s"] Cons.prems(3) show ?case by simp
qed

lemma ids_ordered_distinct:
  assumes "ids_ordered s"
  shows "distinct (map item_id (items (state s)))"
proof -
  let ?h = "\<lambda>k. or_else (thread s) ''all'' @ ''-'' @ String k"
  from assms obtain ks where
    ks: "map item_id (items (state s)) = map ?h ks" "sorted_wrt (<) ks"
    by (auto simp: ids_ordered_def)
  have "inj ?h"
    by (rule injI) (simp add: String_inj)
  then have "inj_on ?h (set ks)"
    by (rule inj_on_subset) simp
  moreover from ks(2) have "distinct ks"
    by (simp add: strict_sorted_iff)
  ultimately show ?thesis
    unfolding ks(1) by (simp add: distinct_map)
qed

section \<open>Properties of the vote bar\<close>

text \<open>
  C2: the up-click and down-click transitions of the vote counter are the six rows of the
  table (none/up gives up and +1, up/up gives none and -1, down/up gives up and +2,
  none/down gives down and -1, down/down gives none and +1, up/down gives down and -2), and
  from count 0 with no direction: up gives (1, up), up twice gives (0, none), up then down
  gives (-1, down), down then up gives (1, up).
\<close>

theorem vote_transitions:
  "click_up \<lparr> votes = v, dir = None \<rparr> = \<lparr> votes = v + 1, dir = Some Up \<rparr>
   \<and> click_up \<lparr> votes = v, dir = Some Up \<rparr> = \<lparr> votes = v - 1, dir = None \<rparr>
   \<and> click_up \<lparr> votes = v, dir = Some Down \<rparr> = \<lparr> votes = v + 2, dir = Some Up \<rparr>
   \<and> click_down \<lparr> votes = v, dir = None \<rparr> = \<lparr> votes = v - 1, dir = Some Down \<rparr>
   \<and> click_down \<lparr> votes = v, dir = Some Down \<rparr> = \<lparr> votes = v + 1, dir = None \<rparr>
   \<and> click_down \<lparr> votes = v, dir = Some Up \<rparr> = \<lparr> votes = v - 2, dir = Some Down \<rparr>
   \<and> click_up (VoteBar_init 0) = \<lparr> votes = 1, dir = Some Up \<rparr>
   \<and> click_up (click_up (VoteBar_init 0)) = \<lparr> votes = 0, dir = None \<rparr>
   \<and> click_down (click_up (VoteBar_init 0)) = \<lparr> votes = - 1, dir = Some Down \<rparr>
   \<and> click_up (click_down (VoteBar_init 0)) = \<lparr> votes = 1, dir = Some Up \<rparr>"
  by (simp add: click_up_def click_down_def up_def down_def VoteBar_init_def)

section \<open>Properties of the mapper\<close>

text \<open>
  C3: for a raw record whose \<open>url\<close> is present, is not the placeholder \<open>#\<close> and is not a URL,
  and whose \<open>source.url\<close> is absent, the claim is that the mapper returns an item with an
  empty favicon and never throws. The code calls \<open>new URL(url)\<close> on every url that is neither
  empty nor the placeholder and does not catch what it throws: on such a record (with a
  non-empty url) the mapper throws the parser's TypeError.
\<close>

theorem mapGNews_malformed_url_throws:
  assumes "url a = Some u" and "u \<noteq> []" and "u \<noteq> ''#''" and "hostname p u = Inl m"
      and "(case source a of None \<Rightarrow> None | Some s \<Rightarrow> source_url s) = None"
  shows "mapGNews p today now a idx topic = Inl (InvalidURL m)"
  using assms by (auto simp: mapGNews_def Let_def split: option.splits)

theorem mapGNews_malformed_url_throws_witness:
  "url (blank\<lparr> url := Some ''not a url'' \<rparr>) = Some ''not a url''
   \<and> hostname example_platform ''not a url'' = Inl ''Invalid URL''
   \<and> mapGNews example_platform 0 0 (blank\<lparr> url := Some ''not a url'' \<rparr>) 0 ''all''
       = Inl (InvalidURL ''Invalid URL'')"
  using mapGNews_malformed_url_throws
    [of "blank\<lparr> url := Some ''not a url'' \<rparr>" "''not a url''" example_platform "''Invalid URL''" 0 0 0 "''all''"]
  by (simp add: blank_def example_platform_def)

text \<open>
  C7: the claim is that the hour count of the age label is a whole number, at least 1, for
  every raw record, also one whose \<open>publishedAt\<close> is not a date. For a \<open>publishedAt\<close> that does
  not parse, \<open>getTime()\<close> is \<open>NaN\<close>, \<open>Math.max(1, NaN)\<close> is \<open>NaN\<close>, and the label reads
  \<open>NaNh ago\<close>. (For a date that parses, and for an absent one, the count is
  \<open>max 1 (round_hours (now - t))\<close>: lemma \<open>mapGNews_age_floor\<close>.)
\<close>

theorem mapGNews_unparseable_date_NaN:
  assumes "publishedAt a = Some d" and "getTime p d = None"
      and "mapGNews p today now a idx topic = Inr it"
  shows "age it = ''NaNh ago''"
  using assms by (auto simp: mapGNews_def Let_def split: sum.splits)

theorem mapGNews_unparseable_date_NaN_witness:
  "publishedAt (blank\<lparr> publishedAt := Some ''yesterday'' \<rparr>) = Some ''yesterday''
   \<and> getTime example_platform ''yesterday'' = None
   \<and> mapGNews example_platform 0 0 (blank\<lparr> publishedAt := Some ''yesterday'' \<rparr>) 0 ''all'' =
       Inr \<lparr> item_id = ''all-0'', item_title = ''Untitled'', item_url = ''#'', favicon = [],
             thumbnail = None, comments = 0, item_votes = 0, age = ''NaNh ago'',
             item_thread = ''all'' \<rparr>
   \<and> age \<lparr> item_id = ''all-0'', item_title = ''Untitled'', item_url = ''#'', favicon = [],
            thumbnail = None, comments = 0, item_votes = 0, age = ''NaNh ago'',
            item_thread = ''all'' \<rparr> = ''NaNh ago''"
proof -
  have a: "publishedAt (blank\<lparr> publishedAt := Some ''yesterday'' \<rparr>) = Some ''yesterday''"
    by simp
  have b: "getTime example_platform ''yesterday'' = None"
    by (simp add: example_platform_def)
  have c: "mapGNews example_platform 0 0 (blank\<lparr> publishedAt := Some ''yesterday'' \<rparr>) 0 ''all'' =
       Inr \<lparr> item_id = ''all-0'', item_title = ''Untitled'', item_url = ''#'', favicon = [],
             thumbnail = None, comments = 0, item_votes = 0, age = ''NaNh ago'',
             item_thread = ''all'' \<rparr>"
    by code_simp
  from a b c mapGNews_unparseable_date_NaN[OF a b c] show ?thesis by blast
qed

section \<open>Properties of the fetcher\<close>

text \<open>
  C9: the token is the first of the environment variables \<open>NEXT_PUBLIC_GNEWS_TOKEN\<close> and
  \<open>GNEWS_TOKEN\<close>, in this order, that holds a non-empty string, and the hardcoded default when
  neither does. So the token is never empty, and the fetcher never fails with the
  configuration error: whatever the environment, it issues one request, which carries the
  resolved token. The check itself fires, without a request, exactly when the token it reads
  is empty.
\<close>

theorem fetchGNews_token_resolution:
  "(e ''NEXT_PUBLIC_GNEWS_TOKEN'' = Some a \<and> a \<noteq> [] \<longrightarrow> GNEWS_TOKEN e = a)
   \<and> ((e ''NEXT_PUBLIC_GNEWS_TOKEN'' = None \<or> e ''NEXT_PUBLIC_GNEWS_TOKEN'' = Some [])
        \<and> e ''GNEWS_TOKEN'' = Some b \<and> b \<noteq> [] \<longrightarrow> GNEWS_TOKEN e = b)
   \<and> ((e ''NEXT_PUBLIC_GNEWS_TOKEN'' = None \<or> e ''NEXT_PUBLIC_GNEWS_TOKEN'' = Some [])
        \<and> (e ''GNEWS_TOKEN'' = None \<or> e ''GNEWS_TOKEN'' = Some [])
        \<longrightarrow> GNEWS_TOKEN e = ''398eff08263b1e6180096acb4ab68a01'')
   \<and> GNEWS_TOKEN e \<noteq> []
   \<and> snd (fetchGNews (GNEWS_TOKEN e) p clock net pg thr) \<noteq> Inl MissingToken
   \<and> fst (fetchGNews (GNEWS_TOKEN e) p clock net pg thr) =
        [[(''token'', GNEWS_TOKEN e), (''lang'', ''en''), (''max'', ''10''), (''page'', String pg)]
         @ (case thr of None \<Rightarrow> [] | Some t \<Rightarrow> if t \<noteq> [] then [(''topic'', t)] else [])]
   \<and> (snd (fetchGNews tok p clock net pg thr) = Inl MissingToken) = (tok = [])
   \<and> fst (fetchGNews [] p clock net pg thr) = []"
proof -
  have r1: "e ''NEXT_PUBLIC_GNEWS_TOKEN'' = Some a \<and> a \<noteq> [] \<longrightarrow> GNEWS_TOKEN e = a"
    by (simp add: GNEWS_TOKEN_def or_else_def)
  have r2: "(e ''NEXT_PUBLIC_GNEWS_TOKEN'' = None \<or> e ''NEXT_PUBLIC_GNEWS_TOKEN'' = Some [])
        \<and> e ''GNEWS_TOKEN'' = Some b \<and> b \<noteq> [] \<longrightarrow> GNEWS_TOKEN e = b"
    by (auto simp: GNEWS_TOKEN_def or_else_def)
  have r3: "(e ''NEXT_PUBLIC_GNEWS_TOKEN'' = None \<or> e ''NEXT_PUBLIC_GNEWS_TOKEN'' = Some [])
        \<and> (e ''GNEWS_TOKEN'' = None \<or> e ''GNEWS_TOKEN'' = Some [])
        \<longrightarrow> GNEWS_TOKEN e = ''398eff08263b1e6180096acb4ab68a01''"
    by (auto simp: GNEWS_TOKEN_def or_else_def)
  have n: "GNEWS_TOKEN e \<noteq> []"
    by (rule GNEWS_TOKEN_nonempty)
  have a: "(snd (fetchGNews t' p clock net pg thr) = Inl MissingToken) = (t' = [])" for t'
    by (auto simp: fetchGNews_def Let_def dest!: map_indexed_error mapGNews_error
        split: fetch_outcome.splits json_body.splits)
  from a[of "GNEWS_TOKEN e"] n
  have f: "snd (fetchGNews (GNEWS_TOKEN e) p clock net pg thr) \<noteq> Inl MissingToken"
    by simp
  have q: "fst (fetchGNews (GNEWS_TOKEN e) p clock net pg thr) =
        [[(''token'', GNEWS_TOKEN e), (''lang'', ''en''), (''max'', ''10''), (''page'', String pg)]
         @ (case thr of None \<Rightarrow> [] | Some t \<Rightarrow> if t \<noteq> [] then [(''topic'', t)] else [])]"
    using n by (rule fetchGNews_requests)
  have b: "fst (fetchGNews [] p clock net pg thr) = []"
    by (simp add: fetchGNews_def)
  from r1 r2 r3 n f q a[of tok] b show ?thesis by blast
qed

theorem fetchGNews_token_resolution_witness:
  "GNEWS_TOKEN env_both = ''k1''
   \<and> GNEWS_TOKEN env_second = ''k2''
   \<and> GNEWS_TOKEN (env example_platform) = ''398eff08263b1e6180096acb4ab68a01''
   \<and> snd (fetchGNews (GNEWS_TOKEN (env example_platform)) example_platform clock0
            (always (response 200 (Articles [blank]))) 1 None) \<noteq> Inl MissingToken
   \<and> snd (fetchGNews [] example_platform clock0 (always (response 200 (Articles [blank]))) 1 None)
       = Inl MissingToken"
proof -
  have h1: "env_both ''NEXT_PUBLIC_GNEWS_TOKEN'' = Some ''k1'' \<and> ''k1'' \<noteq> []"
    by (simp add: env_both_def)
  have h2: "(env_second ''NEXT_PUBLIC_GNEWS_TOKEN'' = None
              \<or> env_second ''NEXT_PUBLIC_GNEWS_TOKEN'' = Some [])
            \<and> env_second ''GNEWS_TOKEN'' = Some ''k2'' \<and> ''k2'' \<noteq> []"
    by (simp add: env_second_def)
  have h3: "(env example_platform ''NEXT_PUBLIC_GNEWS_TOKEN'' = None
              \<or> env example_platform ''NEXT_PUBLIC_GNEWS_TOKEN'' = Some [])
            \<and> (env example_platform ''GNEWS_TOKEN'' = None
              \<or> env example_platform ''GNEWS_TOKEN'' = Some [])"
    by (simp add: example_platform_def)
  from h1 fetchGNews_token_resolution[of env_both "''k1''"]
  have w1: "GNEWS_TOKEN env_both = ''k1''" by blast
  from h2 fetchGNews_token_resolution[of env_second _ "''k2''"]
  have w2: "GNEWS_TOKEN env_second = ''k2''" by blast
  from h3 fetchGNews_token_resolution[of "env example_platform"]
  have w3: "GNEWS_TOKEN (env example_platform) = ''398eff08263b1e6180096acb4ab68a01''" by blast
  from fetchGNews_token_resolution[of "env example_platform" _ _ example_platform clock0
      "always (response 200 (Articles [blank]))" 1 None "[]"]
  have w4: "snd (fetchGNews (GNEWS_TOKEN (env example_platform)) example_platform clock0
            (always (response 200 (Articles [blank]))) 1 None) \<noteq> Inl MissingToken"
    and w5: "snd (fetchGNews [] example_platform clock0
            (always (response 200 (Articles [blank]))) 1 None) = Inl MissingToken"
    by blast+
  from w1 w2 w3 w4 w5 show ?thesis by blast
qed

text \<open>
  C9 as it was stated, that the fetcher fails with the configuration error when no credential
  is configured, does not hold: with neither variable set, the fetcher sends the request with
  the hardcoded default and returns the mapped page.
\<close>

theorem fetchGNews_no_credential_counterexample:
  "env example_platform ''NEXT_PUBLIC_GNEWS_TOKEN'' = None
   \<and> env example_platform ''GNEWS_TOKEN'' = None
   \<and> fetchGNews (GNEWS_TOKEN (env example_platform)) example_platform clock0
        (always (response 200 (Articles [blank]))) 1 None
       = ([[(''token'', ''398eff08263b1e6180096acb4ab68a01''), (''lang'', ''en''),
            (''max'', ''10''), (''page'', ''1'')]],
          Inr [untitled ''all-0''])
   \<and> snd (fetchGNews (GNEWS_TOKEN (env example_platform)) example_platform clock0
        (always (response 200 (Articles [blank]))) 1 None) \<noteq> Inl MissingToken
   \<and> fst (fetchGNews (GNEWS_TOKEN (env example_platform)) example_platform clock0
        (always (response 200 (Articles [blank]))) 1 None) \<noteq> []"
proof -
  have a: "env example_platform ''NEXT_PUBLIC_GNEWS_TOKEN'' = None"
      "env example_platform ''GNEWS_TOKEN'' = None"
    by (simp_all add: example_platform_def)
  have b: "fetchGNews (GNEWS_TOKEN (env example_platform)) example_platform clock0
        (always (response 200 (Articles [blank]))) 1 None
       = ([[(''token'', ''398eff08263b1e6180096acb4ab68a01''), (''lang'', ''en''),
            (''max'', ''10''), (''page'', ''1'')]],
          Inr [untitled ''all-0''])"
    by code_simp
  from b have c: "snd (fetchGNews (GNEWS_TOKEN (env example_platform)) example_platform clock0
        (always (response 200 (Articles [blank]))) 1 None) \<noteq> Inl MissingToken"
      and d: "fst (fetchGNews (GNEWS_TOKEN (env example_platform)) example_platform clock0
        (always (response 200 (Articles [blank]))) 1 None) \<noteq> []"
    by simp_all
  from a b c d show ?thesis by blast
qed

text \<open>
  C10: for a successful response whose body has no \<open>articles\<close> (or has it \<open>null\<close>), the fetcher
  returns the empty list and raises nothing; a load that is still current then appends
  nothing and sets \<open>hasMore\<close> to false.
\<close>

theorem missing_articles_empty_page:
  assumes "ok res" and "json res = NoArticles"
  shows "snd (fetchGNews (GNEWS_TOKEN (env p)) p clock (\<lambda>_. Resolves res) pg thr) = Inr []
         \<and> (i < length (loads s) \<and> \<not> settled (loads s ! i) \<and> \<not> cancelled (loads s ! i) \<longrightarrow>
              items (state (step p (Settle i (Resolves res) clock) s)) = items (state s)
              \<and> hasMore (state (step p (Settle i (Resolves res) clock) s)) = False)"
  using assms
  by (simp add: Let_def load_resume_def fetchGNews_no_articles GNEWS_TOKEN_nonempty PAGE_SIZE_def)

theorem missing_articles_empty_page_witness:
  "ok \<lparr> ok = True, status = 200, json = NoArticles \<rparr>
   \<and> (0::nat) < length (loads mount) \<and> \<not> settled (loads mount ! 0) \<and> \<not> cancelled (loads mount ! 0)
   \<and> snd (fetchGNews (GNEWS_TOKEN (env example_platform)) example_platform clock0
          (\<lambda>_. Resolves \<lparr> ok = True, status = 200, json = NoArticles \<rparr>) 1 None) = Inr []
   \<and> items (state (step example_platform
         (Settle 0 (Resolves \<lparr> ok = True, status = 200, json = NoArticles \<rparr>) clock0) mount))
       = items (state mount)
   \<and> hasMore (state (step example_platform
         (Settle 0 (Resolves \<lparr> ok = True, status = 200, json = NoArticles \<rparr>) clock0) mount)) = False"
proof -
  have a: "(0::nat) < length (loads mount) \<and> \<not> settled (loads mount ! 0)
      \<and> \<not> cancelled (loads mount ! 0)"
    by (simp add: feed_defs)
  have b: "ok \<lparr> ok = True, status = 200, json = NoArticles \<rparr>"
      "json \<lparr> ok = True, status = 200, json = NoArticles \<rparr> = NoArticles"
    by simp_all
  from missing_articles_empty_page[OF b, of example_platform clock0 1 None 0 mount] a b
  show ?thesis by blast
qed

section \<open>Properties of the feed\<close>

text \<open>
  C1: a load whose page or thread has changed before its request is answered mutates none of
  the state (articles, \<open>hasMore\<close>, \<open>error\<close>, \<open>loading\<close>, nor the page) when the answer comes. In
  every state the mounted feed can reach, this holds for every run of the loading effect but
  the newest, and for every run whose page or thread is not the current one.
\<close>

theorem superseded_load_discarded:
  assumes "s = run p evs mount" and "i < length (loads s)"
      and "0 < i \<or> load_page (loads s ! i) \<noteq> page (state s) \<or> load_thread (loads s ! i) \<noteq> thread s"
  shows "state (step p (Settle i out clock) s) = state s"
proof -
  have n: "newest_current s"
    unfolding assms(1) using newest_current_mount by (rule newest_current_run)
  then obtain l rest where ls: "loads s = l # rest"
    and l: "load_page l = page (state s)" "load_thread l = thread s"
    and rest: "list_all cancelled rest"
    by (auto simp: newest_current_def split: list.splits)
  from assms(3) ls l have "0 < i" by (cases i) auto
  with assms(2) ls rest have "cancelled (loads s ! i)"
    by (cases i) (auto simp: list_all_length)
  with assms(2) show ?thesis by (rule cancelled_load_discarded)
qed

theorem superseded_load_discarded_witness:
  "1 < length (loads (run example_platform [SetThread (Some ''world'')] mount))
   \<and> \<not> settled (loads (run example_platform [SetThread (Some ''world'')] mount) ! 1)
   \<and> load_thread (loads (run example_platform [SetThread (Some ''world'')] mount) ! 1)
       \<noteq> thread (run example_platform [SetThread (Some ''world'')] mount)
   \<and> state (step example_platform (Settle 1 (response 200 (Articles [blank])) clock0)
             (run example_platform [SetThread (Some ''world'')] mount))
       = state (run example_platform [SetThread (Some ''world'')] mount)"
proof -
  have l: "1 < length (loads (run example_platform [SetThread (Some ''world'')] mount))"
    by (simp add: feed_defs)
  have t: "0 < (1::nat)
           \<or> load_page (loads (run example_platform [SetThread (Some ''world'')] mount) ! 1)
               \<noteq> page (state (run example_platform [SetThread (Some ''world'')] mount))
           \<or> load_thread (loads (run example_platform [SetThread (Some ''world'')] mount) ! 1)
               \<noteq> thread (run example_platform [SetThread (Some ''world'')] mount)"
    by simp
  have u: "\<not> settled (loads (run example_platform [SetThread (Some ''world'')] mount) ! 1)
           \<and> load_thread (loads (run example_platform [SetThread (Some ''world'')] mount) ! 1)
               \<noteq> thread (run example_platform [SetThread (Some ''world'')] mount)"
    by (simp add: feed_defs)
  from l u superseded_load_discarded[OF refl l t] show ?thesis by blast
qed

text \<open>
  C4: when a load that is still current completes with a page of at most 10 articles,
  \<open>hasMore\<close> is false afterwards if and only if the page has fewer than 10 articles; when it
  completes with a failure, \<open>hasMore\<close> stays as it was.
\<close>

theorem hasMore_after_load:
  assumes "i < length (loads s)" and "\<not> settled (loads s ! i)" and "\<not> cancelled (loads s ! i)"
  shows "(snd (fetchGNews (GNEWS_TOKEN (env p)) p clock (\<lambda>_. out)
                 (load_page (loads s ! i)) (load_thread (loads s ! i))) = Inr data
           \<and> length data \<le> 10 \<longrightarrow>
           (hasMore (state (step p (Settle i out clock) s)) = False) = (length data < 10))
         \<and> (snd (fetchGNews (GNEWS_TOKEN (env p)) p clock (\<lambda>_. out)
                 (load_page (loads s ! i)) (load_thread (loads s ! i))) = Inl e \<longrightarrow>
           hasMore (state (step p (Settle i out clock) s)) = hasMore (state s))"
  using assms by (auto simp: Let_def load_resume_def PAGE_SIZE_def)

theorem hasMore_after_load_witness:
  "(0::nat) < length (loads mount) \<and> \<not> settled (loads mount ! 0) \<and> \<not> cancelled (loads mount ! 0)
   \<and> snd (fetchGNews (GNEWS_TOKEN (env example_platform)) example_platform clock0
            (\<lambda>_. response 200 (Articles [blank, blank]))
            (load_page (loads mount ! 0)) (load_thread (loads mount ! 0)))
       = Inr [untitled ''all-0'', untitled ''all-1'']
   \<and> hasMore (state (step example_platform (Settle 0 (response 200 (Articles [blank, blank])) clock0)
                        mount)) = False
   \<and> snd (fetchGNews (GNEWS_TOKEN (env example_platform)) example_platform clock0
            (\<lambda>_. response 500 NoArticles)
            (load_page (loads mount ! 0)) (load_thread (loads mount ! 0)))
       = Inl (Network 500)
   \<and> hasMore (state (step example_platform (Settle 0 (response 500 NoArticles) clock0) mount))
       = hasMore (state mount)"
proof -
  have a: "(0::nat) < length (loads mount)" "\<not> settled (loads mount ! 0)"
      "\<not> cancelled (loads mount ! 0)"
    by (simp_all add: feed_defs)
  have d: "snd (fetchGNews (GNEWS_TOKEN (env example_platform)) example_platform clock0
            (\<lambda>_. response 200 (Articles [blank, blank]))
            (load_page (loads mount ! 0)) (load_thread (loads mount ! 0)))
       = Inr [untitled ''all-0'', untitled ''all-1'']"
    by code_simp
  have f: "snd (fetchGNews (GNEWS_TOKEN (env example_platform)) example_platform clock0
            (\<lambda>_. response 500 NoArticles)
            (load_page (loads mount ! 0)) (load_thread (loads mount ! 0)))
       = Inl (Network 500)"
    by code_simp
  have n: "length [untitled ''all-0'', untitled ''all-1''] \<le> 10"
      "length [untitled ''all-0'', untitled ''all-1''] < 10"
    by simp_all
  from hasMore_after_load[OF a, of example_platform clock0 "response 200 (Articles [blank, blank])"
      "[untitled ''all-0'', untitled ''all-1'']"] d n
  have g: "hasMore (state (step example_platform
             (Settle 0 (response 200 (Articles [blank, blank])) clock0) mount)) = False"
    by blast
  from hasMore_after_load[OF a, of example_platform clock0 "response 500 NoArticles"] f
  have h: "hasMore (state (step example_platform (Settle 0 (response 500 NoArticles) clock0) mount))
       = hasMore (state mount)"
    by blast
  from a d f g h show ?thesis by blast
qed

text \<open>
  C5: when the request of the current load is answered with a status \<open>s\<close> that is not a success,
  the error message afterwards is \<open>Network s\<close>, which contains \<open>s\<close>, \<open>loading\<close> is false, and
  the accumulated list (as the page and \<open>hasMore\<close>) is what it was; starting the load did not
  change the list either.
\<close>

theorem failed_fetch_sets_error:
  assumes "i < length (loads s)" and "\<not> settled (loads s ! i)" and "\<not> cancelled (loads s ! i)"
      and "\<not> ok res"
  shows "error (state (step p (Settle i (Resolves res) clock) s))
           = Some (''Network '' @ String (status res))
         \<and> sublist (String (status res)) (''Network '' @ String (status res))
         \<and> loading (state (step p (Settle i (Resolves res) clock) s)) = False
         \<and> items (state (step p (Settle i (Resolves res) clock) s)) = items (state s)
         \<and> page (state (step p (Settle i (Resolves res) clock) s)) = page (state s)
         \<and> hasMore (state (step p (Settle i (Resolves res) clock) s)) = hasMore (state s)
         \<and> items (state (run_load pg s0)) = items (state s0)"
proof -
  have c: "sublist (String (status res)) (''Network '' @ String (status res))"
    by (rule suffix_imp_sublist) (rule suffixI, rule refl)
  have r: "error (state (step p (Settle i (Resolves res) clock) s))
           = Some (''Network '' @ String (status res))
         \<and> loading (state (step p (Settle i (Resolves res) clock) s)) = False
         \<and> items (state (step p (Settle i (Resolves res) clock) s)) = items (state s)
         \<and> page (state (step p (Settle i (Resolves res) clock) s)) = page (state s)
         \<and> hasMore (state (step p (Settle i (Resolves res) clock) s)) = hasMore (state s)"
    using assms
    by (simp add: Let_def load_resume_def fetchGNews_not_ok GNEWS_TOKEN_nonempty)
  have b: "items (state (run_load pg s0)) = items (state s0)"
    by (simp add: run_load_def load_begin_def)
  from c r b show ?thesis by blast
qed

theorem failed_fetch_sets_error_witness:
  "(0::nat) < length (loads mount) \<and> \<not> settled (loads mount ! 0) \<and> \<not> cancelled (loads mount ! 0)
   \<and> error (state (step example_platform
         (Settle 0 (Resolves \<lparr> ok = False, status = 500, json = NoArticles \<rparr>) clock0) mount))
       = Some ''Network 500''
   \<and> loading (state (step example_platform
         (Settle 0 (Resolves \<lparr> ok = False, status = 500, json = NoArticles \<rparr>) clock0) mount)) = False
   \<and> items (state (step example_platform
         (Settle 0 (Resolves \<lparr> ok = False, status = 500, json = NoArticles \<rparr>) clock0) mount))
       = items (state mount)"
proof -
  have a: "(0::nat) < length (loads mount)" "\<not> settled (loads mount ! 0)"
      "\<not> cancelled (loads mount ! 0)"
    by (simp_all add: feed_defs)
  have b: "\<not> ok \<lparr> ok = False, status = 500, json = NoArticles \<rparr>"
    by simp
  have c: "String 500 = ''500''"
    by code_simp
  from failed_fetch_sets_error[OF a b, of example_platform clock0] a c show ?thesis by simp
qed

text \<open>
  C6: from every state, a change of the selected thread leaves the accumulated list empty,
  the page at 1 and \<open>hasMore\<close> true.
\<close>

theorem thread_change_resets:
  assumes "t \<noteq> thread s"
  shows "items (state (step p (SetThread t) s)) = []
         \<and> page (state (step p (SetThread t) s)) = 1
         \<and> hasMore (state (step p (SetThread t) s)) = True"
  using assms by (simp add: Let_def run_load_def load_begin_def reset_def)

theorem thread_change_resets_witness:
  "Some ''world'' \<noteq> thread mount
   \<and> items (state (step example_platform (SetThread (Some ''world'')) mount)) = []
   \<and> page (state (step example_platform (SetThread (Some ''world'')) mount)) = 1
   \<and> hasMore (state (step example_platform (SetThread (Some ''world'')) mount)) = True"
proof -
  have a: "Some ''world'' \<noteq> thread mount"
    by (simp add: feed_defs)
  from thread_change_resets[OF a, of example_platform] a show ?thesis by simp
qed

text \<open>
  C8: in every state the mounted feed reaches through events whose answers hold at most 10
  articles each, the ids of the accumulated articles are pairwise distinct. (The id of the
  article at position \<open>j\<close> of page \<open>pg\<close> is the thread key, a dash and \<open>(pg - 1) * 10 + j\<close>: lemma
  \<open>fetchGNews_ids\<close>; the list is emptied when the thread changes.)
\<close>

theorem feed_ids_distinct:
  assumes "\<forall>e \<in> set evs. brought e \<le> 10"
  shows "distinct (map item_id (items (state (run p evs mount))))"
proof -
  have "ids_ordered (run p evs mount)"
    using newest_current_mount ids_ordered_mount assms by (rule ids_ordered_run)
  then show ?thesis
    by (rule ids_ordered_distinct)
qed

theorem feed_ids_distinct_witness:
  "list_all (\<lambda>e. brought e \<le> 10) two_pages
   \<and> map item_id (items (state (run example_platform two_pages mount))) =
       [''all-0'', ''all-1'', ''all-2'', ''all-3'', ''all-4'', ''all-5'', ''all-6'', ''all-7'',
        ''all-8'', ''all-9'', ''all-10'', ''all-11'']
   \<and> distinct (map item_id (items (state (run example_platform two_pages mount))))"
proof -
  have h: "\<forall>e \<in> set two_pages. brought e \<le> 10"
    by (simp add: two_pages_def response_def)
  have v: "map item_id (items (state (run example_platform two_pages mount))) =
       [''all-0'', ''all-1'', ''all-2'', ''all-3'', ''all-4'', ''all-5'', ''all-6'', ''all-7'',
        ''all-8'', ''all-9'', ''all-10'', ''all-11'']"
    by code_simp
  from h have "list_all (\<lambda>e. brought e \<le> 10) two_pages"
    by (simp add: list_all_iff)
  with v feed_ids_distinct[OF h, of example_platform] show ?thesis by blast
qed

end
